theory Spec2Isabelle
  imports Main "HOL-Library.Sublist"
begin

section \<open>General Download Renamer: filename utilities and the download handler\<close>

text \<open>
  The development embeds the filename utilities (\<^verbatim>\<open>utils/filenameUtils.js\<close>) and the
  placeholder part of \<^verbatim>\<open>processDownload\<close> (\<^verbatim>\<open>background/service-worker.js\<close>).

  Strings are \<^typ>\<open>string\<close>, one \<^typ>\<open>char\<close> for one UTF-16 code unit of the
  JavaScript string; the model covers the code units \<open>U+0000\<close> to \<open>U+00FF\<close>, on which
  \<^verbatim>\<open>toLowerCase\<close> and \<^verbatim>\<open>trim\<close> are closed. The \<^verbatim>\<open>values\<close> argument of
  \<^verbatim>\<open>processPattern\<close> is the lookup \<^typ>\<open>string \<rightharpoonup> string\<close>, \<open>None\<close> for \<^verbatim>\<open>undefined\<close>;
  the value bag of \<^verbatim>\<open>processDownload\<close> is an object with own properties and the
  members it inherits from \<^verbatim>\<open>Object.prototype\<close>.
\<close>

subsection \<open>String primitives of the language\<close>

text \<open>\<^verbatim>\<open>String.prototype.toLowerCase\<close> on the code units below 256: the letters
  \<open>A\<close> to \<open>Z\<close> and \<open>U+00C0\<close> to \<open>U+00DE\<close> (without the multiplication sign
  \<open>U+00D7\<close>) move up by 32.\<close>

definition toLowerCase_char :: "char \<Rightarrow> char" where
  "toLowerCase_char c =
     (let n = (of_char c :: nat)
      in if (65 \<le> n \<and> n \<le> 90) \<or> (192 \<le> n \<and> n \<le> 222 \<and> n \<noteq> 215)
         then char_of (n + 32) else c)"

definition toLowerCase :: "string \<Rightarrow> string" where
  "toLowerCase s = map toLowerCase_char s"

text \<open>White space and line terminators stripped by \<^verbatim>\<open>String.prototype.trim\<close>, below 256:
  TAB, LF, VT, FF, CR, SPACE and NBSP.\<close>

definition isWhiteSpace :: "char \<Rightarrow> bool" where
  "isWhiteSpace c = ((of_char c :: nat) \<in> {9, 10, 11, 12, 13, 32, 160})"

definition trim :: "string \<Rightarrow> string" where
  "trim s = rev (dropWhile isWhiteSpace (rev (dropWhile isWhiteSpace s)))"

text \<open>\<^verbatim>\<open>s.split(c)\<close> for a one-character separator: never the empty array.\<close>

fun split :: "char \<Rightarrow> string \<Rightarrow> string list" where
  "split c [] = [[]]"
| "split c (x # xs) =
     (if x = c then [] # split c xs
      else (case split c xs of
              [] \<Rightarrow> [[x]]
            | t # ts \<Rightarrow> (x # t) # ts))"

text \<open>\<^verbatim>\<open>xs.join(separator)\<close> on an array of strings.\<close>

fun join :: "string \<Rightarrow> string list \<Rightarrow> string" where
  "join separator [] = []"
| "join separator [v] = v"
| "join separator (v # w # vs) = v @ separator @ join separator (w # vs)"

text \<open>\<^verbatim>\<open>s.lastIndexOf(c)\<close> for a one-character needle: the index of the last
  occurrence, \<open>-1\<close> when there is none.\<close>

definition lastIndexOf :: "string \<Rightarrow> char \<Rightarrow> int" where
  "lastIndexOf s c =
     (if c \<in> set s then int (length s) - 1 - int (length (takeWhile (\<lambda>x. x \<noteq> c) (rev s)))
      else - 1)"

text \<open>\<^verbatim>\<open>s.substring(i, j)\<close> and \<^verbatim>\<open>s.substring(i)\<close>; an index below zero counts as
  zero, one beyond the length as the length, and the two are swapped when \<open>i > j\<close>.\<close>

definition substring :: "string \<Rightarrow> int \<Rightarrow> int \<Rightarrow> string" where
  "substring s i j =
     (let a = nat (min i j); b = nat (max i j) in take (b - a) (drop a s))"

definition substring_from :: "string \<Rightarrow> int \<Rightarrow> string" where
  "substring_from s i = drop (nat i) s"


subsection \<open>sanitizeFilename\<close>

text \<open>The character class \<^verbatim>\<open>[\/\\:*?"<>|]\<close>: slash, backslash, colon, star, question
  mark, double quote, less, greater, bar.\<close>

definition invalidChars :: "char list" where
  "invalidChars =
     [CHR ''/'', CHR 0x5C, CHR '':'', CHR ''*'', CHR ''?'', CHR 0x22, CHR ''<'', CHR ''>'', CHR ''|'']"

text \<open>\<^verbatim>\<open>filename.replace(/[\/\\:*?"<>|]/g, '_')\<close>: the global replace walks the string
  from the left and substitutes every code unit of the class.\<close>

primrec sanitizeFilename :: "string \<Rightarrow> string" where
  "sanitizeFilename [] = []"
| "sanitizeFilename (c # cs) =
     (if c \<in> set invalidChars then CHR ''_'' # sanitizeFilename cs
      else c # sanitizeFilename cs)"

subsection \<open>splitFilename\<close>

record filename_parts =
  name :: string
  ext :: string

definition splitFilename :: "string \<Rightarrow> filename_parts" where
  "splitFilename filename =
     (let lastDotIndex = lastIndexOf filename (CHR ''.'')
      in if lastDotIndex \<le> 0 then \<lparr>name = filename, ext = []\<rparr>
         else \<lparr>name = substring filename 0 lastDotIndex,
               ext = substring_from filename lastDotIndex\<rparr>)"

subsection \<open>processPattern\<close>

text \<open>\<^verbatim>\<open>s.slice(i, j)\<close>: a negative index counts from the end.\<close>

definition slice :: "string \<Rightarrow> int \<Rightarrow> int \<Rightarrow> string" where
  "slice s i j =
     (let n = int (length s);
          a = (if i < 0 then max (n + i) 0 else min i n);
          b = (if j < 0 then max (n + j) 0 else min j n)
      in take (nat (b - a)) (drop (nat a) s))"

text \<open>\<^verbatim>\<open>pattern.match(/\{([^}]+)\}/g)\<close>: the successive matches, scanning from the left.
  At an opening brace the greedy class \<^verbatim>\<open>[^}]+\<close> takes the longest run of characters
  other than the closing brace; the match succeeds when that run is not empty and a closing
  brace follows it, and the scan resumes after that brace. Otherwise the scan moves on by
  one character. The result is \<^verbatim>\<open>null\<close> (here \<open>None\<close>) when nothing matches.\<close>

function placeholderMatches :: "string \<Rightarrow> string list" where
  "placeholderMatches [] = []"
| "placeholderMatches (c # cs) =
     (if c = CHR ''{'' then
        (let body = takeWhile (\<lambda>x. x \<noteq> CHR ''}'') cs;
             rest = dropWhile (\<lambda>x. x \<noteq> CHR ''}'') cs
         in if body \<noteq> [] \<and> rest \<noteq> []
            then (c # body @ [CHR ''}'']) # placeholderMatches (tl rest)
            else placeholderMatches cs)
      else placeholderMatches cs)"
  by pat_completeness auto
termination
proof (relation "measure length")
  fix c :: char and cs body rest :: string
  assume "rest = dropWhile (\<lambda>x. x \<noteq> CHR ''}'') cs"
  then have "length (tl rest) \<le> length cs"
    using length_dropWhile_le [of "\<lambda>x. x \<noteq> CHR ''}''" cs] by simp
  then show "(tl rest, c # cs) \<in> measure length" by simp
qed simp_all

definition match_placeholders :: "string \<Rightarrow> string list option" where
  "match_placeholders pattern =
     (case placeholderMatches pattern of [] \<Rightarrow> None | m # ms \<Rightarrow> Some (m # ms))"

text \<open>Step 1 of \<^verbatim>\<open>processPattern\<close>: the ordered placeholder names of the pattern.\<close>

definition placeholdersInPattern :: "string \<Rightarrow> string list" where
  "placeholdersInPattern pattern =
     filter (\<lambda>p. p \<noteq> ''ext'')
       (map (\<lambda>p. slice p 1 (- 1))
          (case match_placeholders pattern of None \<Rightarrow> [] | Some ms \<Rightarrow> ms))"

text \<open>Step 2: the value of each placeholder, the empty string for a missing one.\<close>

definition processedValues :: "string \<Rightarrow> (string \<rightharpoonup> string) \<Rightarrow> string list" where
  "processedValues pattern values =
     map (\<lambda>ph. case values ph of None \<Rightarrow> [] | Some v \<Rightarrow> v) (placeholdersInPattern pattern)"

text \<open>Step 3: the joined string, before the extension is appended.\<close>

definition joinedString :: "string \<Rightarrow> (string \<rightharpoonup> string) \<Rightarrow> string \<Rightarrow> string" where
  "joinedString pattern values separator =
     (if separator = [] then join [] (processedValues pattern values)
      else join separator (filter (\<lambda>v. v \<noteq> []) (processedValues pattern values)))"


subsection \<open>getCategoryForFile\<close>

text \<open>A field that is missing or empty is the empty string: both are falsy.\<close>

record category_rule =
  rule_name :: string
  extensions :: string

definition DEFAULT_CATEGORY_RULES :: "category_rule list" where
  "DEFAULT_CATEGORY_RULES =
     [\<lparr>rule_name = ''Documents'', extensions = ''pdf,doc,docx,odt,rtf,txt,md''\<rparr>,
      \<lparr>rule_name = ''Spreadsheets'', extensions = ''xls,xlsx,csv,ods,xml''\<rparr>,
      \<lparr>rule_name = ''Presentations'', extensions = ''ppt,pptx,odp''\<rparr>,
      \<lparr>rule_name = ''Images'', extensions = ''jpg,jpeg,png,gif,bmp,svg,webp,heic,heif''\<rparr>,
      \<lparr>rule_name = ''Design & RAW'', extensions = ''psd,ai,eps,indd,sketch,fig,cr2,nef,arw,dng''\<rparr>,
      \<lparr>rule_name = ''Audio'', extensions = ''mp3,wav,aac,flac,m4a,ogg''\<rparr>,
      \<lparr>rule_name = ''Videos'', extensions = ''mp4,mov,avi,mkv,wmv,flv,webm''\<rparr>,
      \<lparr>rule_name = ''Archives'', extensions = ''zip,rar,7z,tar,gz,bz2''\<rparr>,
      \<lparr>rule_name = ''Code'', extensions = ''html,css,js,json,py,java,cpp,sh,ps1''\<rparr>,
      \<lparr>rule_name = ''Installers'', extensions = ''exe,dmg,pkg,msi,deb,app''\<rparr>,
      \<lparr>rule_name = ''Fonts'', extensions = ''ttf,otf,woff,woff2''\<rparr>]"

text \<open>The extension as the classifier compares it: without the dot, lower-cased.\<close>

definition fileExtension :: "string \<Rightarrow> string" where
  "fileExtension filename =
     (let e = ext (splitFilename filename)
      in if prefix ''.'' e then toLowerCase (substring_from e 1) else toLowerCase e)"

text \<open>\<^verbatim>\<open>rule.extensions.split(',').map(e => e.trim().toLowerCase())\<close>\<close>

definition ruleExtensions :: "category_rule \<Rightarrow> string list" where
  "ruleExtensions rule = map (\<lambda>e. toLowerCase (trim e)) (split (CHR '','') (extensions rule))"

text \<open>The rule list in use: the custom rules when they are a non-empty array, the defaults
  otherwise. \<open>None\<close> stands for \<^verbatim>\<open>null\<close> and for any value that is not an array.\<close>

definition rulesInUse :: "category_rule list option \<Rightarrow> category_rule list" where
  "rulesInUse customRules =
     (case customRules of
        None \<Rightarrow> DEFAULT_CATEGORY_RULES
      | Some rs \<Rightarrow> if length rs > 0 then rs else DEFAULT_CATEGORY_RULES)"

text \<open>The loop over the rules.\<close>

fun findCategory :: "category_rule list \<Rightarrow> string \<Rightarrow> string \<Rightarrow> string" where
  "findCategory [] extension fallbackCategory = fallbackCategory"
| "findCategory (rule # rules) extension fallbackCategory =
     (if rule_name rule \<noteq> [] \<and> extensions rule \<noteq> [] then
        (if extension \<in> set (ruleExtensions rule) then rule_name rule
         else findCategory rules extension fallbackCategory)
      else findCategory rules extension fallbackCategory)"

definition getCategoryForFile :: "string \<Rightarrow> category_rule list option \<Rightarrow> string" where
  "getCategoryForFile filename customRules =
     (let fallbackCategory = ''unknown''
      in if filename = [] then fallbackCategory
         else let extension = fileExtension filename
              in if extension = [] then fallbackCategory
                 else findCategory (rulesInUse customRules) extension fallbackCategory)"

subsection \<open>Custom placeholders in processDownload\<close>















subsection \<open>processDownload\<close>










subsection \<open>An instance of the host for evaluation\<close>



















subsection \<open>Patterns as token sequences\<close>

text \<open>A way to write a pattern down, used to state what the parser finds: a sequence of
  pairs of a literal text and the name of the token that follows it, and the text after the
  last token.\<close>

fun renderPattern :: "(string \<times> string) list \<Rightarrow> string \<Rightarrow> string" where
  "renderPattern [] tail = tail"
| "renderPattern ((lit, nm) # segs) tail = lit @ ''{'' @ nm @ ''}'' @ renderPattern segs tail"

section \<open>Properties\<close>

subsection \<open>Sanitizer\<close>

lemma length_sanitizeFilename: "length (sanitizeFilename s) = length s"
  by (induction s) simp_all

lemma nth_sanitizeFilename:
  "i < length s \<Longrightarrow>
   sanitizeFilename s ! i = (if s ! i \<in> set invalidChars then CHR ''_'' else s ! i)"
proof (induction s arbitrary: i)
  case Nil
  then show ?case by simp
next
  case (Cons c cs)
  then show ?case by (cases i) simp_all
qed

lemma underscore_valid: "CHR ''_'' \<notin> set invalidChars"
  by (simp add: invalidChars_def)

lemma sanitizeFilename_fixes_valid:
  "set s \<inter> set invalidChars = {} \<Longrightarrow> sanitizeFilename s = s"
  by (induction s) auto

lemma sanitizeFilename_valid: "set (sanitizeFilename s) \<inter> set invalidChars = {}"
  by (induction s) (auto simp: underscore_valid)

text \<open>Claim C7. On every input, \<open>sanitizeFilename\<close> returns a string of the same
  length in which each of the nine characters \<^verbatim>\<open>\ / : * ? " < > |\<close> has become
  an underscore and every other character is unchanged; on the input of the specification
  it yields \<^verbatim>\<open>a_b_c_d_e_f_g_h_i\<close>. The function is total: it has no failing branch.\<close>

theorem sanitizeFilename_replaces:
  "length (sanitizeFilename s) = length s \<and>
   (\<forall>i < length s.
      sanitizeFilename s ! i =
        (if s ! i \<in> {CHR ''/'', CHR 0x5C, CHR '':'', CHR ''*'', CHR ''?'', CHR 0x22,
                      CHR ''<'', CHR ''>'', CHR ''|''}
         then CHR ''_'' else s ! i)) \<and>
   sanitizeFilename (''a/b:c*d?e'' @ [CHR 0x22] @ ''f<g>h|i'') = ''a_b_c_d_e_f_g_h_i''"
proof (intro conjI allI impI)
  show "length (sanitizeFilename s) = length s"
    by (rule length_sanitizeFilename)
next
  fix i assume "i < length s"
  then show "sanitizeFilename s ! i =
        (if s ! i \<in> {CHR ''/'', CHR 0x5C, CHR '':'', CHR ''*'', CHR ''?'', CHR 0x22,
                      CHR ''<'', CHR ''>'', CHR ''|''}
         then CHR ''_'' else s ! i)"
    by (simp add: nth_sanitizeFilename invalidChars_def)
next
  show "sanitizeFilename (''a/b:c*d?e'' @ [CHR 0x22] @ ''f<g>h|i'') = ''a_b_c_d_e_f_g_h_i''"
    by (simp add: invalidChars_def)
qed

theorem sanitizeFilename_replaces_witness:
  "(1::nat) < length ''a/b'' \<and> sanitizeFilename ''a/b'' ! 1 = CHR ''_'' \<and>
   length (sanitizeFilename ''a/b'') = 3"
  using sanitizeFilename_replaces [of "''a/b''"] by simp

text \<open>Claim C8. \<open>sanitizeFilename\<close> is idempotent.\<close>

theorem sanitizeFilename_idempotent:
  "sanitizeFilename (sanitizeFilename x) = sanitizeFilename x"
  by (rule sanitizeFilename_fixes_valid) (rule sanitizeFilename_valid)

subsection \<open>splitFilename\<close>

lemma lastIndexOf_absent: "c \<notin> set s \<Longrightarrow> lastIndexOf s c = - 1"
  by (simp add: lastIndexOf_def)

lemma takeWhile_rev_short:
  "c \<in> set s \<Longrightarrow> length (takeWhile (\<lambda>x. x \<noteq> c) (rev s)) < length s"
proof -
  assume "c \<in> set s"
  then have "takeWhile (\<lambda>x. x \<noteq> c) (rev s) \<noteq> rev s"
    by (auto simp: takeWhile_eq_all_conv)
  moreover have "length (takeWhile (\<lambda>x. x \<noteq> c) (rev s)) \<le> length (rev s)"
    by (rule length_takeWhile_le)
  ultimately show ?thesis
    by (metis length_rev le_neq_implies_less takeWhile_eq_take take_all order_refl)
qed

lemma lastIndexOf_range:
  assumes "c \<in> set s"
  shows "0 \<le> lastIndexOf s c" and "lastIndexOf s c < int (length s)"
  using takeWhile_rev_short [OF assms] assms by (simp_all add: lastIndexOf_def)

lemma nth_lastIndexOf:
  assumes "c \<in> set s"
  shows "s ! nat (lastIndexOf s c) = c"
proof -
  let ?k = "length (takeWhile (\<lambda>x. x \<noteq> c) (rev s))"
  have k: "?k < length s" by (rule takeWhile_rev_short [OF assms])
  then have "\<not> (rev s ! ?k \<noteq> c)"
    using nth_length_takeWhile [of "\<lambda>x. x \<noteq> c" "rev s"] by simp
  then have "s ! (length s - Suc ?k) = c"
    using k by (simp add: rev_nth)
  moreover have "nat (lastIndexOf s c) = length s - Suc ?k"
    using k assms by (simp add: lastIndexOf_def nat_diff_distrib')
  ultimately show ?thesis by simp
qed

lemma splitFilename_no_ext:
  "lastIndexOf filename (CHR ''.'') \<le> 0 \<Longrightarrow>
   splitFilename filename = \<lparr>name = filename, ext = []\<rparr>"
  by (simp add: splitFilename_def)

lemma splitFilename_with_ext:
  "0 < lastIndexOf filename (CHR ''.'') \<Longrightarrow>
   splitFilename filename =
     \<lparr>name = take (nat (lastIndexOf filename (CHR ''.''))) filename,
      ext = drop (nat (lastIndexOf filename (CHR ''.''))) filename\<rparr>"
  by (simp add: splitFilename_def substring_def substring_from_def Let_def min_def max_def)

text \<open>Claim C9. \<open>splitFilename\<close> is lossless: the name part followed by the ext part is
  the original filename, and a non-empty ext part starts with the dot.\<close>

theorem splitFilename_lossless:
  "name (splitFilename filename) @ ext (splitFilename filename) = filename \<and>
   (ext (splitFilename filename) \<noteq> [] \<longrightarrow> hd (ext (splitFilename filename)) = CHR ''.'')"
proof (cases "0 < lastIndexOf filename (CHR ''.'')")
  case False
  then show ?thesis by (simp add: splitFilename_no_ext)
next
  case True
  let ?i = "nat (lastIndexOf filename (CHR ''.''))"
  from True have dot: "CHR ''.'' \<in> set filename"
    by (auto simp: lastIndexOf_def split: if_splits)
  then have lt: "?i < length filename"
    using lastIndexOf_range [OF dot] by simp
  then have "hd (drop ?i filename) = filename ! ?i"
    by (simp add: hd_drop_conv_nth)
  then have "hd (drop ?i filename) = CHR ''.''"
    using nth_lastIndexOf [OF dot] by simp
  then show ?thesis
    using True by (simp add: splitFilename_with_ext)
qed

theorem splitFilename_lossless_witness:
  "name (splitFilename ''a.tar.gz'') @ ext (splitFilename ''a.tar.gz'') = ''a.tar.gz'' \<and>
   ext (splitFilename ''a.tar.gz'') \<noteq> [] \<and> hd (ext (splitFilename ''a.tar.gz'')) = CHR ''.''"
proof -
  have "ext (splitFilename ''a.tar.gz'') \<noteq> []"
    by (simp add: splitFilename_def lastIndexOf_def substring_from_def)
  then show ?thesis
    using splitFilename_lossless [of "''a.tar.gz''"] by simp
qed

lemma lastIndexOf_leading_only:
  "c \<notin> set rest \<Longrightarrow> lastIndexOf (c # rest) c = 0"
  by (simp add: lastIndexOf_def takeWhile_append)

lemma fileExtension_no_ext:
  "lastIndexOf filename (CHR ''.'') \<le> 0 \<Longrightarrow> fileExtension filename = []"
  by (simp add: fileExtension_def splitFilename_no_ext toLowerCase_def)

lemma getCategoryForFile_no_ext:
  "fileExtension filename = [] \<Longrightarrow> getCategoryForFile filename customRules = ''unknown''"
  by (simp add: getCategoryForFile_def Let_def)

text \<open>Claim C10. A filename whose only dot is its first character has no extension:
  \<open>splitFilename\<close> returns the whole string as the name and an empty ext, and
  \<open>getCategoryForFile\<close> answers \<^verbatim>\<open>unknown\<close> whatever the rules.\<close>

theorem leading_dot_only_no_extension:
  assumes "filename = CHR ''.'' # rest" and "CHR ''.'' \<notin> set rest"
  shows "splitFilename filename = \<lparr>name = filename, ext = []\<rparr> \<and>
         getCategoryForFile filename customRules = ''unknown''"
proof -
  have "lastIndexOf filename (CHR ''.'') \<le> 0"
    using assms by (simp add: lastIndexOf_leading_only)
  then show ?thesis
    by (simp add: splitFilename_no_ext fileExtension_no_ext getCategoryForFile_no_ext)
qed

theorem leading_dot_only_no_extension_witness:
  "splitFilename ''.gitignore'' = \<lparr>name = ''.gitignore'', ext = []\<rparr> \<and>
   getCategoryForFile ''.gitignore'' (Some [\<lparr>rule_name = ''Git'', extensions = ''gitignore''\<rparr>]) = ''unknown''"
  using leading_dot_only_no_extension [of "''.gitignore''" "''gitignore''"] by simp

subsection \<open>Classifier\<close>

lemma ruleExtensions_empty_field:
  "extensions rule = [] \<Longrightarrow> ruleExtensions rule = [[]]"
  by (simp add: ruleExtensions_def trim_def toLowerCase_def)

lemma findCategory_no_match:
  "\<forall>rule \<in> set rules. rule_name rule = [] \<or> extension \<notin> set (ruleExtensions rule) \<Longrightarrow>
   findCategory rules extension fallbackCategory = fallbackCategory"
  by (induction rules) auto

lemma findCategory_first_match:
  assumes "extension \<noteq> []"
    and "rule_name rule \<noteq> []"
    and "extension \<in> set (ruleExtensions rule)"
    and "\<forall>r \<in> set pre. rule_name r = [] \<or> extension \<notin> set (ruleExtensions r)"
  shows "findCategory (pre @ rule # post) extension fallbackCategory = rule_name rule"
  using assms
proof (induction pre)
  case Nil
  then have "extensions rule \<noteq> []"
    using ruleExtensions_empty_field [of rule] by auto
  with Nil show ?case by simp
next
  case (Cons r pre)
  then show ?case by auto
qed

lemma getCategoryForFile_with_ext:
  "fileExtension filename \<noteq> [] \<Longrightarrow>
   getCategoryForFile filename customRules =
     findCategory (rulesInUse customRules) (fileExtension filename) ''unknown''"
proof -
  assume e: "fileExtension filename \<noteq> []"
  have "fileExtension [] = []"
    by (simp add: fileExtension_def splitFilename_def lastIndexOf_def toLowerCase_def)
  with e have "filename \<noteq> []" by auto
  with e show ?thesis by (simp add: getCategoryForFile_def Let_def)
qed

lemma fileExtension_no_dot: "CHR ''.'' \<notin> set filename \<Longrightarrow> fileExtension filename = []"
  by (simp add: fileExtension_no_ext lastIndexOf_absent)

text \<open>Claim C2, as the code has it. \<open>getCategoryForFile\<close> answers \<^verbatim>\<open>unknown\<close> when the
  filename has no extension, in particular when it has no dot, whatever the rules; and when
  no rule of the list in use has a non-empty name and an extension list containing the
  file's extension. The list in use is the supplied one when it is a non-empty array and
  the default rules otherwise.\<close>

theorem getCategoryForFile_unknown:
  "(fileExtension filename = [] \<longrightarrow> getCategoryForFile filename customRules = ''unknown'') \<and>
   (CHR ''.'' \<notin> set filename \<longrightarrow> getCategoryForFile filename customRules = ''unknown'') \<and>
   ((\<forall>rule \<in> set (rulesInUse customRules).
        rule_name rule = [] \<or> fileExtension filename \<notin> set (ruleExtensions rule)) \<longrightarrow>
    getCategoryForFile filename customRules = ''unknown'')"
proof (intro conjI impI)
  assume "fileExtension filename = []"
  then show "getCategoryForFile filename customRules = ''unknown''"
    by (rule getCategoryForFile_no_ext)
next
  assume "CHR ''.'' \<notin> set filename"
  then show "getCategoryForFile filename customRules = ''unknown''"
    by (simp add: fileExtension_no_dot getCategoryForFile_no_ext)
next
  assume none: "\<forall>rule \<in> set (rulesInUse customRules).
        rule_name rule = [] \<or> fileExtension filename \<notin> set (ruleExtensions rule)"
  show "getCategoryForFile filename customRules = ''unknown''"
  proof (cases "fileExtension filename = []")
    case True
    then show ?thesis by (rule getCategoryForFile_no_ext)
  next
    case False
    then show ?thesis
      using none by (simp add: getCategoryForFile_with_ext findCategory_no_match)
  qed
qed

theorem getCategoryForFile_unknown_witness:
  "fileExtension ''archive'' = [] \<and> CHR ''.'' \<notin> set ''archive'' \<and>
   getCategoryForFile ''archive'' (Some DEFAULT_CATEGORY_RULES) = ''unknown'' \<and>
   fileExtension ''a.xyz'' = ''xyz'' \<and>
   getCategoryForFile ''a.xyz'' (Some []) = ''unknown''"
proof -
  have a: "fileExtension ''archive'' = []" by code_simp
  have b: "CHR ''.'' \<notin> set ''archive''" by simp
  have c: "\<forall>rule \<in> set (rulesInUse (Some [])).
        rule_name rule = [] \<or> fileExtension ''a.xyz'' \<notin> set (ruleExtensions rule)"
    by code_simp
  have d: "fileExtension ''a.xyz'' = ''xyz''" by code_simp
  show ?thesis
    using a b c d getCategoryForFile_unknown [of "''archive''" "Some DEFAULT_CATEGORY_RULES"]
      getCategoryForFile_unknown [of "''a.xyz''" "Some []"]
    by blast
qed

text \<open>With an empty or invalid rules argument the default rules classify the file:
  the answer is not \<^verbatim>\<open>unknown\<close>.\<close>

theorem getCategoryForFile_empty_rules_counterexample:
  "getCategoryForFile ''a.pdf'' (Some []) = ''Documents'' \<and>
   getCategoryForFile ''a.pdf'' None = ''Documents'' \<and>
   ''Documents'' \<noteq> ''unknown''"
  by code_simp

text \<open>Claim C5, as the code has it. For a filename with an extension and a non-empty
  rules list, \<open>getCategoryForFile\<close> returns the name of the first rule, in list order,
  that has a non-empty name and whose comma-separated extensions, trimmed and lower-cased,
  contain the lower-cased file extension, whatever the rules after it.\<close>

theorem getCategoryForFile_first_match:
  assumes "fileExtension filename \<noteq> []"
    and "rule_name rule \<noteq> []"
    and "fileExtension filename \<in> set (ruleExtensions rule)"
    and "\<forall>r \<in> set pre. rule_name r = [] \<or> fileExtension filename \<notin> set (ruleExtensions r)"
  shows "getCategoryForFile filename (Some (pre @ rule # post)) = rule_name rule"
proof -
  have "rulesInUse (Some (pre @ rule # post)) = pre @ rule # post"
    by (simp add: rulesInUse_def)
  then show ?thesis
    using assms by (simp add: getCategoryForFile_with_ext findCategory_first_match)
qed

theorem getCategoryForFile_first_match_witness:
  "fileExtension ''x.Jpg'' \<noteq> [] \<and>
   rule_name \<lparr>rule_name = ''Pics'', extensions = '' JPG ,png''\<rparr> \<noteq> [] \<and>
   fileExtension ''x.Jpg'' \<in> set (ruleExtensions \<lparr>rule_name = ''Pics'', extensions = '' JPG ,png''\<rparr>) \<and>
   fileExtension ''x.Jpg'' \<notin> set (ruleExtensions \<lparr>rule_name = ''Docs'', extensions = ''doc,txt''\<rparr>) \<and>
   fileExtension ''x.Jpg'' \<in> set (ruleExtensions \<lparr>rule_name = ''Photos'', extensions = ''jpg''\<rparr>) \<and>
   getCategoryForFile ''x.Jpg''
     (Some [\<lparr>rule_name = ''Docs'', extensions = ''doc,txt''\<rparr>,
            \<lparr>rule_name = ''Pics'', extensions = '' JPG ,png''\<rparr>,
            \<lparr>rule_name = ''Photos'', extensions = ''jpg''\<rparr>]) = ''Pics'' \<and>
   getCategoryForFile ''report.PDF'' (Some DEFAULT_CATEGORY_RULES) = ''Documents''"
proof -
  let ?docs = "\<lparr>rule_name = ''Docs'', extensions = ''doc,txt''\<rparr>"
  let ?pics = "\<lparr>rule_name = ''Pics'', extensions = '' JPG ,png''\<rparr>"
  let ?photos = "\<lparr>rule_name = ''Photos'', extensions = ''jpg''\<rparr>"
  have a: "fileExtension ''x.Jpg'' \<noteq> []" by code_simp
  have b: "rule_name ?pics \<noteq> []" by simp
  have c: "fileExtension ''x.Jpg'' \<in> set (ruleExtensions ?pics)" by code_simp
  have d: "\<forall>r \<in> set [?docs]. rule_name r = [] \<or> fileExtension ''x.Jpg'' \<notin> set (ruleExtensions r)"
    by code_simp
  have first: "getCategoryForFile ''x.Jpg'' (Some [?docs, ?pics, ?photos]) = ''Pics''"
    using getCategoryForFile_first_match [OF a b c d, of "[?photos]"] by simp
  have a': "fileExtension ''report.PDF'' \<noteq> []" by code_simp
  have b': "rule_name (hd DEFAULT_CATEGORY_RULES) \<noteq> []" by code_simp
  have c': "fileExtension ''report.PDF'' \<in> set (ruleExtensions (hd DEFAULT_CATEGORY_RULES))"
    by code_simp
  have d': "DEFAULT_CATEGORY_RULES = [] @ hd DEFAULT_CATEGORY_RULES # tl DEFAULT_CATEGORY_RULES"
    by (simp add: DEFAULT_CATEGORY_RULES_def)
  have e': "rule_name (hd DEFAULT_CATEGORY_RULES) = ''Documents''"
    by (simp add: DEFAULT_CATEGORY_RULES_def)
  have "getCategoryForFile ''report.PDF''
          (Some ([] @ hd DEFAULT_CATEGORY_RULES # tl DEFAULT_CATEGORY_RULES)) =
        rule_name (hd DEFAULT_CATEGORY_RULES)"
    using getCategoryForFile_first_match [OF a' b' c', of "[]" "tl DEFAULT_CATEGORY_RULES"]
    by simp
  then have second: "getCategoryForFile ''report.PDF'' (Some DEFAULT_CATEGORY_RULES) = ''Documents''"
    using d' e' by simp
  have d1: "fileExtension ''x.Jpg'' \<notin> set (ruleExtensions ?docs)" by code_simp
  have d2: "fileExtension ''x.Jpg'' \<in> set (ruleExtensions ?photos)" by code_simp
  show ?thesis using a b c d1 d2 first second by blast
qed

text \<open>A rule with an empty name is passed over although its list contains the
  extension: the name returned is that of a later rule.\<close>

theorem getCategoryForFile_first_match_counterexample:
  "fileExtension ''a.pdf'' \<in> set (ruleExtensions \<lparr>rule_name = [], extensions = ''pdf''\<rparr>) \<and>
   getCategoryForFile ''a.pdf''
     (Some [\<lparr>rule_name = [], extensions = ''pdf''\<rparr>, \<lparr>rule_name = ''Docs'', extensions = ''pdf''\<rparr>])
     = ''Docs'' \<and>
   ''Docs'' \<noteq> rule_name \<lparr>rule_name = [], extensions = ''pdf''\<rparr>"
  by code_simp

subsection \<open>Pattern parser\<close>

lemma placeholderMatches_skip_literal:
  "CHR ''{'' \<notin> set lit \<Longrightarrow> placeholderMatches (lit @ xs) = placeholderMatches xs"
  by (induction lit) auto

lemma placeholderMatches_token:
  assumes "nm \<noteq> []" and "CHR ''}'' \<notin> set nm"
  shows "placeholderMatches (CHR ''{'' # nm @ CHR ''}'' # rest) =
         (CHR ''{'' # nm @ [CHR ''}'']) # placeholderMatches rest"
proof -
  have "takeWhile (\<lambda>x. x \<noteq> CHR ''}'') (nm @ CHR ''}'' # rest) = nm"
    using assms(2) by (simp add: takeWhile_append)
  moreover have "dropWhile (\<lambda>x. x \<noteq> CHR ''}'') (nm @ CHR ''}'' # rest) = CHR ''}'' # rest"
    using assms(2) by (simp add: dropWhile_append)
  ultimately show ?thesis using assms(1) by simp
qed

lemma slice_token: "slice (CHR ''{'' # nm @ [CHR ''}'']) 1 (- 1) = nm"
  by (simp add: slice_def Let_def)

lemma placeholderMatches_render:
  assumes "\<forall>(lit, nm) \<in> set segs. CHR ''{'' \<notin> set lit \<and> nm \<noteq> [] \<and> CHR ''}'' \<notin> set nm"
    and "CHR ''{'' \<notin> set tail"
  shows "placeholderMatches (renderPattern segs tail) =
         map (\<lambda>(lit, nm). CHR ''{'' # nm @ [CHR ''}'']) segs"
  using assms
proof (induction segs)
  case Nil
  then show ?case
    using placeholderMatches_skip_literal [of tail "[]"] by simp
next
  case (Cons seg segs)
  obtain lit nm where seg: "seg = (lit, nm)" by (cases seg)
  with Cons.prems have lit: "CHR ''{'' \<notin> set lit" and nm: "nm \<noteq> []" "CHR ''}'' \<notin> set nm"
    by auto
  have "placeholderMatches (renderPattern (seg # segs) tail) =
        placeholderMatches (CHR ''{'' # nm @ CHR ''}'' # renderPattern segs tail)"
    using placeholderMatches_skip_literal [OF lit] by (simp add: seg)
  also have "\<dots> = (CHR ''{'' # nm @ [CHR ''}'']) # placeholderMatches (renderPattern segs tail)"
    by (rule placeholderMatches_token [OF nm])
  finally show ?case using Cons by (simp add: seg)
qed

lemma match_placeholders_or_empty:
  "(case match_placeholders pattern of None \<Rightarrow> [] | Some ms \<Rightarrow> ms) = placeholderMatches pattern"
  by (simp add: match_placeholders_def split: list.splits)

text \<open>Claim C6. On a pattern written as brace-delimited tokens with literal text between
  and after them, the parser returns the names of all tokens from left to right, without
  their braces, duplicates kept, and with every occurrence of \<^verbatim>\<open>ext\<close> removed. A name
  is what the expression \<^verbatim>\<open>[^}]+\<close> accepts: a non-empty string without a closing brace.
  The pattern of the specification yields \<^verbatim>\<open>date\<close>, \<^verbatim>\<open>originalFilename\<close>.\<close>

theorem placeholdersInPattern_tokens:
  assumes "\<forall>(lit, nm) \<in> set segs. CHR ''{'' \<notin> set lit \<and> nm \<noteq> [] \<and> CHR ''}'' \<notin> set nm"
    and "CHR ''{'' \<notin> set tail"
  shows "placeholdersInPattern (renderPattern segs tail) =
         filter (\<lambda>p. p \<noteq> ''ext'') (map snd segs)"
proof -
  have "map (\<lambda>p. slice p 1 (- 1)) (map (\<lambda>(lit, nm). CHR ''{'' # nm @ [CHR ''}'']) segs) = map snd segs"
    by (induction segs) (auto simp: slice_token)
  then show ?thesis
    unfolding placeholdersInPattern_def match_placeholders_or_empty
    by (simp only: placeholderMatches_render [OF assms])
qed

theorem placeholdersInPattern_tokens_witness:
  "renderPattern [([], ''date''), (''_'', ''originalFilename''), ([], ''ext'')] [] =
     ''{date}_{originalFilename}{ext}'' \<and>
   placeholdersInPattern ''{date}_{originalFilename}{ext}'' = [''date'', ''originalFilename'']"
proof -
  have a: "\<forall>(lit, nm) \<in> set [([], ''date''), (''_'', ''originalFilename''), ([], ''ext'')].
      CHR ''{'' \<notin> set lit \<and> nm \<noteq> [] \<and> CHR ''}'' \<notin> set nm"
    by simp
  have b: "CHR ''{'' \<notin> set []" by simp
  show ?thesis
    using placeholdersInPattern_tokens [OF a b] by simp
qed

subsection \<open>Assembler\<close>

lemma join_Cons: "join sep (v # vs) = v @ (if vs = [] then [] else sep @ join sep vs)"
  by (cases vs) simp_all

lemma join_snoc: "join sep (vs @ [v]) = (if vs = [] then [] else join sep vs @ sep) @ v"
  by (induction sep vs rule: join.induct) simp_all

lemma foreign_prefix_empty:
  assumes "prefix w (v @ xs)" and "v \<noteq> []" and "set v \<inter> S = {}" and "set w \<subseteq> S"
  shows "w = []"
proof (rule ccontr)
  assume "w \<noteq> []"
  then obtain c w' where w: "w = c # w'" by (cases w) auto
  from assms(2) obtain d v' where v: "v = d # v'" by (cases v) auto
  from assms(1) have "c = d" by (simp add: w v)
  with assms(3,4) show False by (auto simp: w v)
qed

lemma foreign_suffix_empty:
  assumes "suffix w (xs @ v)" and "v \<noteq> []" and "set v \<inter> S = {}" and "set w \<subseteq> S"
  shows "w = []"
proof -
  have "prefix (rev w) (rev v @ rev xs)"
    using assms(1) by (simp add: suffix_to_prefix)
  then have "rev w = []"
    using assms(2-4) by (intro foreign_prefix_empty [of "rev w" "rev v" "rev xs" S]) auto
  then show ?thesis by simp
qed

lemma foreign_sublist_empty:
  assumes "sublist w v" and "set v \<inter> S = {}" and "set w \<subseteq> S"
  shows "w = []"
  using set_mono_sublist [OF assms(1)] assms(2,3) by (cases w) auto

lemma join_separator_run:
  assumes "\<forall>v \<in> set vs. v \<noteq> [] \<and> set v \<inter> set sep = {}"
    and "sublist w (join sep vs)" and "set w \<subseteq> set sep"
  shows "length w \<le> length sep"
  using assms
proof (induction sep vs arbitrary: w rule: join.induct)
  case (1 sep)
  then show ?case by simp
next
  case (2 sep v)
  then have "w = []"
    using foreign_sublist_empty [of w v "set sep"] by simp
  then show ?case by simp
next
  case (3 sep v v' vs)
  let ?J = "join sep (v' # vs)"
  from "3.prems"(1) have v: "v \<noteq> []" "set v \<inter> set sep = {}"
    and v': "v' \<noteq> []" "set v' \<inter> set sep = {}"
    and rest: "\<forall>u \<in> set (v' # vs). u \<noteq> [] \<and> set u \<inter> set sep = {}"
    by auto
  have J: "?J = v' @ (if vs = [] then [] else sep @ join sep vs)"
    by (rule join_Cons)
  have no_prefix: "u = []" if "prefix u ?J" "set u \<subseteq> set sep" for u
    using that v' foreign_prefix_empty [of u v' _ "set sep"] unfolding J by blast
  from "3.prems"(2) have "sublist w (v @ (sep @ ?J))" by simp
  then consider (a) "sublist w v"
    | (b) "sublist w (sep @ ?J)"
    | (c) w1 w2 where "w = w1 @ w2" "suffix w1 v" "prefix w2 (sep @ ?J)"
    unfolding sublist_append [of w v] by blast
  then have in_tail: "sublist w (sep @ ?J)"
  proof cases
    case a
    then have "w = []"
      using foreign_sublist_empty [of w v "set sep"] v "3.prems"(3) by simp
    then show ?thesis by simp
  next
    case b
    then show ?thesis .
  next
    case c
    have "w1 = []"
      using foreign_suffix_empty [of w1 "[]" v "set sep"] c(1,2) v "3.prems"(3) by simp
    with c show ?thesis by simp
  qed
  then consider (d) "sublist w sep"
    | (e) "sublist w ?J"
    | (f) w1 w2 where "w = w1 @ w2" "suffix w1 sep" "prefix w2 ?J"
    unfolding sublist_append [of w sep] by blast
  then show ?case
  proof cases
    case d
    then show ?thesis by (rule sublist_length_le)
  next
    case e
    show ?thesis by (rule "3.IH" [OF rest e "3.prems"(3)])
  next
    case f
    have "w2 = []" using no_prefix [of w2] f(1,3) "3.prems"(3) by simp
    with f have "suffix w sep" by simp
    then show ?thesis by (rule suffix_length_le)
  qed
qed

lemma join_no_leading_separator:
  assumes "sep \<noteq> []" and "\<forall>v \<in> set vs. v \<noteq> [] \<and> set v \<inter> set sep = {}"
  shows "\<not> prefix sep (join sep vs)"
proof (cases vs)
  case Nil
  with assms(1) show ?thesis by simp
next
  case (Cons v vs')
  show ?thesis
  proof
    assume "prefix sep (join sep vs)"
    then have "prefix sep (v @ (if vs' = [] then [] else sep @ join sep vs'))"
      by (simp only: Cons join_Cons)
    then have "sep = []"
      using foreign_prefix_empty [of sep v _ "set sep"] assms(2) Cons by simp
    with assms(1) show False by simp
  qed
qed

lemma join_no_trailing_separator:
  assumes "sep \<noteq> []" and "\<forall>v \<in> set vs. v \<noteq> [] \<and> set v \<inter> set sep = {}"
  shows "\<not> suffix sep (join sep vs)"
proof (cases vs rule: rev_cases)
  case Nil
  with assms(1) show ?thesis by simp
next
  case (snoc vs' v)
  show ?thesis
  proof
    assume "suffix sep (join sep vs)"
    then have "suffix sep ((if vs' = [] then [] else join sep vs' @ sep) @ v)"
      by (simp only: snoc join_snoc)
    then have "sep = []"
      using foreign_suffix_empty [of sep _ v "set sep"] assms(2) snoc by simp
    with assms(1) show False by simp
  qed
qed

text \<open>Claim C1. For a non-empty separator, the string \<open>processPattern\<close> builds before it
  appends the extension is the join of the non-empty values only: empty placeholder values
  are filtered out first. Hence, when no value shares a character with the separator, so
  that only empty values could be the cause, the joined string contains no two consecutive
  separators and neither starts nor ends with the separator.\<close>

theorem joinedString_no_empty_gaps:
  assumes "separator \<noteq> []"
  shows "joinedString pattern values separator =
           join separator (filter (\<lambda>v. v \<noteq> []) (processedValues pattern values)) \<and>
         ((\<forall>v \<in> set (processedValues pattern values). set v \<inter> set separator = {}) \<longrightarrow>
          \<not> sublist (separator @ separator) (joinedString pattern values separator) \<and>
          \<not> prefix separator (joinedString pattern values separator) \<and>
          \<not> suffix separator (joinedString pattern values separator))"
proof (intro conjI impI)
  let ?vs = "filter (\<lambda>v. v \<noteq> []) (processedValues pattern values)"
  show eq: "joinedString pattern values separator = join separator ?vs"
    using assms by (simp add: joinedString_def)
  assume "\<forall>v \<in> set (processedValues pattern values). set v \<inter> set separator = {}"
  then have vs: "\<forall>v \<in> set ?vs. v \<noteq> [] \<and> set v \<inter> set separator = {}"
    by simp
  show "\<not> sublist (separator @ separator) (joinedString pattern values separator)"
  proof
    assume "sublist (separator @ separator) (joinedString pattern values separator)"
    then have "sublist (separator @ separator) (join separator ?vs)"
      by (simp only: eq)
    then have "length (separator @ separator) \<le> length separator"
      by (rule join_separator_run [OF vs]) simp
    with assms show False by simp
  qed
  show "\<not> prefix separator (joinedString pattern values separator)"
    unfolding eq by (rule join_no_leading_separator [OF assms vs])
  show "\<not> suffix separator (joinedString pattern values separator)"
    unfolding eq by (rule join_no_trailing_separator [OF assms vs])
qed

theorem joinedString_no_empty_gaps_witness:
  "''_'' \<noteq> [] \<and>
   processedValues ''{domain}{date}{missing}{originalFilename}{tabUrl}{ext}''
     [''date'' \<mapsto> ''20240115'', ''domain'' \<mapsto> [], ''originalFilename'' \<mapsto> ''report'',
      ''ext'' \<mapsto> ''.pdf''] = [[], ''20240115'', [], ''report'', []] \<and>
   joinedString ''{domain}{date}{missing}{originalFilename}{tabUrl}{ext}''
     [''date'' \<mapsto> ''20240115'', ''domain'' \<mapsto> [], ''originalFilename'' \<mapsto> ''report'',
      ''ext'' \<mapsto> ''.pdf''] ''_'' = ''20240115_report'' \<and>
   \<not> sublist ''__'' ''20240115_report'' \<and> \<not> prefix ''_'' ''20240115_report'' \<and>
   \<not> suffix ''_'' ''20240115_report''"
proof -
  let ?p = "''{domain}{date}{missing}{originalFilename}{tabUrl}{ext}''"
  let ?m = "[''date'' \<mapsto> ''20240115'', ''domain'' \<mapsto> [], ''originalFilename'' \<mapsto> ''report'',
             ''ext'' \<mapsto> ''.pdf'']"
  have pv: "processedValues ?p ?m = [[], ''20240115'', [], ''report'', []]"
    by code_simp
  have a: "''_'' \<noteq> []" by simp
  have b: "\<forall>v \<in> set (processedValues ?p ?m). set v \<inter> set ''_'' = {}"
    unfolding pv by simp
  have c: "join ''_'' (filter (\<lambda>v. v \<noteq> []) (processedValues ?p ?m)) = ''20240115_report''"
    unfolding pv by simp
  note t = joinedString_no_empty_gaps [OF a, of ?p ?m, unfolded c]
  from t have j: "joinedString ?p ?m ''_'' = ''20240115_report''" by blast
  from t b have "\<not> sublist (''_'' @ ''_'') ''20240115_report'' \<and>
      \<not> prefix ''_'' ''20240115_report'' \<and> \<not> suffix ''_'' ''20240115_report''"
    unfolding j by blast
  with a pv j show ?thesis by simp
qed

subsection \<open>Custom placeholders\<close>




























end
